theory Spec2Isabelle
  imports Complex_Main "HOL-Library.AList"
begin

section \<open>Strings and character classes\<close>

text \<open>
  The program is \<^verbatim>\<open>rrna_norm.py\<close>. Python strings are modelled as \<^typ>\<open>string\<close>;
  the model covers ASCII text. On ASCII, \<^verbatim>\<open>\w\<close> of the \<^verbatim>\<open>re\<close> module is
  \<^verbatim>\<open>[A-Za-z0-9_]\<close>, and both \<^verbatim>\<open>\s\<close> and the set removed by \<^verbatim>\<open>str.rstrip()\<close> are the
  code points 9..13 and 28..32.
\<close>

definition is_word :: "char \<Rightarrow> bool" where
  "is_word c = (let n = (of_char c :: nat) in
     (48 \<le> n \<and> n \<le> 57) \<or> (65 \<le> n \<and> n \<le> 90) \<or> n = 95 \<or> (97 \<le> n \<and> n \<le> 122))"

definition is_space :: "char \<Rightarrow> bool" where
  "is_space c = (let n = (of_char c :: nat) in (9 \<le> n \<and> n \<le> 13) \<or> (28 \<le> n \<and> n \<le> 32))"

text \<open>The character class \<^verbatim>\<open>[\w\s]\<close> of the capture group.\<close>

definition label_char :: "char \<Rightarrow> bool" where
  "label_char c = (is_word c \<or> is_space c)"

text \<open>\<^verbatim>\<open>s.rstrip()\<close>\<close>

definition rstrip :: "string \<Rightarrow> string" where
  "rstrip s = rev (dropWhile is_space (rev s))"

text \<open>\<^verbatim>\<open>sep.join(xs)\<close>\<close>

fun join :: "string \<Rightarrow> string list \<Rightarrow> string" where
  "join sep [] = []"
| "join sep [x] = x"
| "join sep (x # y # ys) = x @ sep @ join sep (y # ys)"

section \<open>The rank regular expressions\<close>

text \<open>
  \<^verbatim>\<open>_generate_taxa_reg_exs\<close> compiles seven patterns
  \<^verbatim>\<open>T__\[?([\w\s]+)(?=\]?;)\<close> for the tags k, p, c, o, f, g and
  \<^verbatim>\<open>s__\[?([\w\s]+)(?=\]?)\<close> for the species. A pattern is its tag and whether the
  lookahead asks for the semicolon.
\<close>

record taxa_reg_ex =
  tag :: char
  semi :: bool

definition generate_taxa_reg_exs :: "taxa_reg_ex list" where
  "generate_taxa_reg_exs =
     [\<lparr>tag = CHR ''k'', semi = True\<rparr>,
      \<lparr>tag = CHR ''p'', semi = True\<rparr>,
      \<lparr>tag = CHR ''c'', semi = True\<rparr>,
      \<lparr>tag = CHR ''o'', semi = True\<rparr>,
      \<lparr>tag = CHR ''f'', semi = True\<rparr>,
      \<lparr>tag = CHR ''g'', semi = True\<rparr>,
      \<lparr>tag = CHR ''s'', semi = False\<rparr>]"

text \<open>The lookahead \<^verbatim>\<open>(?=\]?;)\<close> on the rest of the string.\<close>

fun lookahead_semi :: "string \<Rightarrow> bool" where
  "lookahead_semi [] = False"
| "lookahead_semi [c] = (c = CHR '';'')"
| "lookahead_semi (c # d # cs) = (c = CHR '';'' \<or> (c = CHR '']'' \<and> d = CHR '';''))"

text \<open>
  A match of the pattern that starts at the head of the string, with the text of the
  group. The group is greedy; a shorter group never matches, because the character after
  it would be one of \<^verbatim>\<open>[\w\s]\<close>, which the lookahead \<^verbatim>\<open>\]?;\<close> refuses, and the
  species lookahead \<^verbatim>\<open>\]?\<close> accepts anything. So the group is the longest run of
  \<^verbatim>\<open>[\w\s]\<close> after the optional bracket.
\<close>

definition match_at :: "taxa_reg_ex \<Rightarrow> string \<Rightarrow> string option" where
  "match_at r s =
     (case s of
        t # u1 # u2 # rest \<Rightarrow>
          if t = tag r \<and> u1 = CHR ''_'' \<and> u2 = CHR ''_'' then
            (let body = (case rest of [] \<Rightarrow> rest
                         | b # rest' \<Rightarrow> if b = CHR ''['' then rest' else rest);
                 grp = takeWhile label_char body
             in if grp = [] then None
                else if semi r \<and> \<not> lookahead_semi (dropWhile label_char body) then None
                else Some grp)
          else None
      | _ \<Rightarrow> None)"

text \<open>\<^verbatim>\<open>reg_ex.search(s)\<close> followed by \<^verbatim>\<open>match.groups()[0]\<close>: the leftmost match.\<close>

fun search :: "taxa_reg_ex \<Rightarrow> string \<Rightarrow> string option" where
  "search r [] = match_at r []"
| "search r (c # cs) =
     (case match_at r (c # cs) of Some grp \<Rightarrow> Some grp | None \<Rightarrow> search r cs)"

section \<open>Building the list of rank labels\<close>

text \<open>
  The loop of \<^verbatim>\<open>_curate_db\<close> over the patterns (lines 110 to 120): the group is
  appended as it is, and the first pattern without a match ends the loop.
\<close>

fun db_key_items :: "taxa_reg_ex list \<Rightarrow> string \<Rightarrow> string list" where
  "db_key_items [] s = []"
| "db_key_items (reg_ex # rs) s =
     (case search reg_ex s of
        Some grp \<Rightarrow> grp # db_key_items rs s
      | None \<Rightarrow> [])"

text \<open>
  The loop of \<^verbatim>\<open>_curate_input\<close> (lines 169 to 178): the same, but the group goes
  through \<^verbatim>\<open>rstrip()\<close> before it is appended.
\<close>

fun input_key_items :: "taxa_reg_ex list \<Rightarrow> string \<Rightarrow> string list" where
  "input_key_items [] s = []"
| "input_key_items (reg_ex # rs) s =
     (case search reg_ex s of
        Some grp \<Rightarrow> rstrip grp # input_key_items rs s
      | None \<Rightarrow> [])"

section \<open>Errors and numbers\<close>

text \<open>The exceptions the modelled code can raise.\<close>

datatype error = IndexError | ValueError | ZeroDivisionError | KeyError | RuntimeError

text \<open>
  Copy numbers and table cells are floating-point numbers. They are modelled as the
  IEEE values over the reals: a finite number, the two infinities and NaN. Rounding,
  overflow and the sign of zero are left out (a zero divisor is taken as \<open>+0.0\<close>).
\<close>

datatype fval = Fin real | PInf | NInf | NaN

fun fadd :: "fval \<Rightarrow> fval \<Rightarrow> fval" where
  "fadd NaN y = NaN"
| "fadd x NaN = NaN"
| "fadd (Fin x) (Fin y) = Fin (x + y)"
| "fadd PInf NInf = NaN"
| "fadd NInf PInf = NaN"
| "fadd PInf y = PInf"
| "fadd x PInf = PInf"
| "fadd NInf y = NInf"
| "fadd x NInf = NInf"

fun fdiv :: "fval \<Rightarrow> fval \<Rightarrow> fval" where
  "fdiv NaN y = NaN"
| "fdiv x NaN = NaN"
| "fdiv (Fin x) (Fin y) =
     (if y = 0 then (if x = 0 then NaN else if 0 < x then PInf else NInf)
      else Fin (x / y))"
| "fdiv (Fin x) y = Fin 0"
| "fdiv PInf (Fin y) = (if y < 0 then NInf else PInf)"
| "fdiv NInf (Fin y) = (if y < 0 then PInf else NInf)"
| "fdiv x y = NaN"

fun is_nan :: "fval \<Rightarrow> bool" where
  "is_nan NaN = True"
| "is_nan x = False"

fun is_fin :: "fval \<Rightarrow> bool" where
  "is_fin (Fin x) = True"
| "is_fin x = False"

text \<open>Python's \<^verbatim>\<open>sum(xs)\<close>: the additions run from the left, starting at 0.\<close>

definition py_sum :: "fval list \<Rightarrow> fval" where
  "py_sum xs = foldl fadd (Fin 0) xs"

text \<open>
  The sum of a column as \<^verbatim>\<open>DataFrame.sum(axis=0)\<close> computes it: NaN cells are
  skipped (\<^verbatim>\<open>skipna=True\<close> is the default), and a column without a number sums to 0.
\<close>

definition col_sum :: "fval list \<Rightarrow> fval" where
  "col_sum c = py_sum (filter (\<lambda>x. \<not> is_nan x) c)"

section \<open>Python lists and dictionaries\<close>

text \<open>
  A \<^verbatim>\<open>dict\<close> is an association list in insertion order with distinct keys:
  \<^verbatim>\<open>d[k] = v\<close> is \<^const>\<open>AList.update\<close> (the value is replaced in place, a new key is
  appended), \<^verbatim>\<open>k in d\<close> is \<open>map_of d k \<noteq> None\<close>.
\<close>

type_synonym ('k, 'v) dict = "('k \<times> 'v) list"

text \<open>\<^verbatim>\<open>s.split(c)\<close> for a one-character separator.\<close>

fun split_on :: "char \<Rightarrow> string \<Rightarrow> string list" where
  "split_on c [] = [[]]"
| "split_on c (x # xs) =
     (if x = c then [] # split_on c xs
      else (case split_on c xs of
              [] \<Rightarrow> [[x]]
            | w # ws \<Rightarrow> (x # w) # ws))"

text \<open>\<^verbatim>\<open>range(start, stop, -1)\<close>\<close>

definition py_range_down :: "int \<Rightarrow> int \<Rightarrow> int list" where
  "py_range_down start stop = map (\<lambda>k. start - int k) [0..<nat (start - stop)]"

text \<open>The slice \<^verbatim>\<open>xs[:i]\<close>; a negative \<open>i\<close> counts from the end.\<close>

definition py_slice_to :: "'a list \<Rightarrow> int \<Rightarrow> 'a list" where
  "py_slice_to xs i =
     (if i < 0 then take (nat (int (length xs) + i)) xs else take (nat i) xs)"

section \<open>Curating the reference database\<close>

text \<open>
  Lines 92 to 95 of \<^verbatim>\<open>_curate_db\<close>: the lines that start with \<open>k\<close> are kept, without
  their trailing whitespace. \<^verbatim>\<open>line[0]\<close> raises on an empty string.
\<close>

fun keep_lines :: "string list \<Rightarrow> error + string list" where
  "keep_lines [] = Inr []"
| "keep_lines (line # ls) =
     (case line of
        [] \<Rightarrow> Inl IndexError
      | c # cs \<Rightarrow>
          (case keep_lines ls of
             Inl e \<Rightarrow> Inl e
           | Inr keep \<Rightarrow> Inr (if c = CHR ''k'' then rstrip line # keep else keep)))"

text \<open>Line 97: \<^verbatim>\<open>line.split('\t')[:2]\<close>\<close>

definition two_fields :: "string \<Rightarrow> string list" where
  "two_fields line = take 2 (split_on (CHR 0x09) line)"

text \<open>
  Lines 98 to 100: \<^verbatim>\<open>taxa_str_to_correction_factor[two_i_list[0]] = float(two_i_list[1])\<close>.
  This dictionary is keyed by the raw taxonomy string, so a later line with the same raw
  string replaces the value of an earlier one. Python's \<^verbatim>\<open>float\<close> is the parameter
  \<open>pyfloat\<close>; \<open>None\<close> stands for its \<^verbatim>\<open>ValueError\<close>.
\<close>

fun read_factors ::
  "(string \<Rightarrow> fval option) \<Rightarrow> string list list \<Rightarrow> (string, fval) dict \<Rightarrow> error + (string, fval) dict"
where
  "read_factors pyfloat [] d = Inr d"
| "read_factors pyfloat (two_i_list # rest) d =
     (case two_i_list of
        [a, b] \<Rightarrow>
          (case pyfloat b of
             None \<Rightarrow> Inl ValueError
           | Some v \<Rightarrow> read_factors pyfloat rest (AList.update a v d))
      | _ \<Rightarrow> Inl IndexError)"

text \<open>
  The state of the main loop of \<^verbatim>\<open>_curate_db\<close>. \<^verbatim>\<open>already_present_dict\<close> is a
  \<^verbatim>\<open>defaultdict(lambda: 1)\<close>: reading a missing key gives 1.
\<close>

record db_state =
  taxa_to_rrna_copy_dict :: "(string, fval) dict"
  count_added :: nat
  already_present_dict :: "(string, nat) dict"

definition default_get :: "(string, nat) dict \<Rightarrow> string \<Rightarrow> nat" where
  "default_get d k = (case map_of d k of None \<Rightarrow> 1 | Some n \<Rightarrow> n)"

text \<open>One round of the loop of lines 109 to 128, for one entry of the raw dictionary.\<close>

definition db_step :: "taxa_reg_ex list \<Rightarrow> string \<times> fval \<Rightarrow> db_state \<Rightarrow> db_state" where
  "db_step regs kv st =
     (let key_items_list = db_key_items regs (fst kv) in
      if key_items_list \<noteq> [] then
        (let str_key_to_add = join '';'' key_items_list in
         if map_of (taxa_to_rrna_copy_dict st) str_key_to_add = None then
           st\<lparr>taxa_to_rrna_copy_dict :=
                 AList.update str_key_to_add (snd kv) (taxa_to_rrna_copy_dict st),
              count_added := count_added st + 1\<rparr>
         else
           st\<lparr>already_present_dict :=
                 AList.update str_key_to_add
                   (default_get (already_present_dict st) str_key_to_add + 1)
                   (already_present_dict st)\<rparr>)
      else st)"

fun db_loop :: "taxa_reg_ex list \<Rightarrow> (string, fval) dict \<Rightarrow> db_state \<Rightarrow> db_state" where
  "db_loop regs [] st = st"
| "db_loop regs (kv # rest) st = db_loop regs rest (db_step regs kv st)"

text \<open>
  \<^verbatim>\<open>_curate_db\<close> on the lines of the file. The result holds the reference table and
  what the report prints: \<^verbatim>\<open>count_added\<close> and the items of
  \<^verbatim>\<open>already_present_dict\<close>.
\<close>

definition curate_db :: "(string \<Rightarrow> fval option) \<Rightarrow> string list \<Rightarrow> error + db_state" where
  "curate_db pyfloat input_file =
     (case keep_lines input_file of
        Inl e \<Rightarrow> Inl e
      | Inr keep_input_file \<Rightarrow>
          (case read_factors pyfloat (map two_fields keep_input_file) [] of
             Inl e \<Rightarrow> Inl e
           | Inr taxa_str_to_correction_factor \<Rightarrow>
               Inr (db_loop generate_taxa_reg_exs taxa_str_to_correction_factor
                      \<lparr>taxa_to_rrna_copy_dict = [], count_added = 0,
                       already_present_dict = []\<rparr>)))"

section \<open>Mapping the input taxa\<close>

text \<open>
  The shortening loop of lines 184 to 190 over the values of \<open>i\<close>; the result is the
  key stored in \<^verbatim>\<open>input_taxa_map\<close>, or \<open>None\<close> when \<^verbatim>\<open>short_match_found\<close> stays false.
\<close>

fun shorten_loop :: "(string, fval) dict \<Rightarrow> string list \<Rightarrow> int list \<Rightarrow> string option" where
  "shorten_loop ref key_items_list [] = None"
| "shorten_loop ref key_items_list (i # rest) =
     (let new_str_to_test = join '';'' (py_slice_to key_items_list i) in
      if map_of ref new_str_to_test \<noteq> None then Some new_str_to_test
      else shorten_loop ref key_items_list rest)"

text \<open>The body of the loop of lines 163 to 199 for one index value.\<close>

definition input_step ::
  "taxa_reg_ex list \<Rightarrow> (string, fval) dict \<Rightarrow> string \<Rightarrow> (string, string) dict
     \<Rightarrow> error + (string, string) dict"
where
  "input_step regs ref taxa_a input_taxa_map =
     (if map_of input_taxa_map taxa_a \<noteq> None then Inr input_taxa_map
      else
        (let key_items_list = input_key_items regs taxa_a in
         if key_items_list \<noteq> [] then
           (let str_key_to_add = join '';'' key_items_list in
            if map_of ref str_key_to_add = None then
              (case shorten_loop ref key_items_list
                      (py_range_down (- 1) (- 1 * int (length key_items_list))) of
                 Some new_str_to_test \<Rightarrow>
                   Inr (AList.update taxa_a new_str_to_test input_taxa_map)
               | None \<Rightarrow> Inr input_taxa_map)
            else Inr (AList.update taxa_a str_key_to_add input_taxa_map))
         else Inl RuntimeError))"

fun input_loop ::
  "taxa_reg_ex list \<Rightarrow> (string, fval) dict \<Rightarrow> string list \<Rightarrow> (string, string) dict
     \<Rightarrow> error + (string, string) dict"
where
  "input_loop regs ref [] m = Inr m"
| "input_loop regs ref (taxa_a # rest) m =
     (case input_step regs ref taxa_a m of
        Inl e \<Rightarrow> Inl e
      | Inr m' \<Rightarrow> input_loop regs ref rest m')"

text \<open>\<^verbatim>\<open>_curate_input\<close> on the index of the count table.\<close>

definition curate_input :: "(string, fval) dict \<Rightarrow> string list \<Rightarrow> error + (string, string) dict" where
  "curate_input ref idx = input_loop generate_taxa_reg_exs ref idx []"

section \<open>Normalising the count table\<close>

text \<open>
  The count table after \<^verbatim>\<open>set_index('Taxonomy')\<close>: the index, the numeric columns
  (each a list with one cell per row) and the last column, which \<^verbatim>\<open>normalise\<close> takes
  off and puts back.
\<close>

record count_df =
  df_index :: "string list"
  df_columns :: "fval list list"
  df_last :: "string list"

definition wf_df :: "count_df \<Rightarrow> bool" where
  "wf_df df = (list_all (\<lambda>c. length c = length (df_index df)) (df_columns df)
                 \<and> length (df_last df) = length (df_index df))"

text \<open>Line 49. Python raises on the division by the length 0 of an empty dictionary.\<close>

definition grand_total :: "(string, fval) dict \<Rightarrow> error + fval" where
  "grand_total ref =
     (if length ref = 0 then Inl ZeroDivisionError
      else Inr (fdiv (py_sum (map snd ref)) (Fin (real (length ref)))))"

text \<open>The choice of lines 60 to 63; the dictionary lookup raises on a missing key.\<close>

definition row_divisor ::
  "(string, fval) dict \<Rightarrow> (string, string) dict \<Rightarrow> fval \<Rightarrow> string \<Rightarrow> error + fval"
where
  "row_divisor ref input_taxa_map gt name =
     (case map_of input_taxa_map name of
        None \<Rightarrow> Inr gt
      | Some key \<Rightarrow>
          (case map_of ref key of
             None \<Rightarrow> Inl KeyError
           | Some v \<Rightarrow> Inr v))"

text \<open>The loop of lines 58 to 63 over the row positions: row \<open>i\<close> is divided in place.\<close>

fun correct_rows ::
  "(string, fval) dict \<Rightarrow> (string, string) dict \<Rightarrow> fval \<Rightarrow> string list \<Rightarrow> nat list
     \<Rightarrow> fval list list \<Rightarrow> error + fval list list"
where
  "correct_rows ref input_taxa_map gt names [] cols = Inr cols"
| "correct_rows ref input_taxa_map gt names (i # rest) cols =
     (case row_divisor ref input_taxa_map gt (names ! i) of
        Inl e \<Rightarrow> Inl e
      | Inr d \<Rightarrow>
          correct_rows ref input_taxa_map gt names rest
            (map (\<lambda>c. c[i := fdiv (c ! i) d]) cols))"

text \<open>Lines 49 to 63: the table after the division of every row.\<close>

definition divide_rows ::
  "(string, fval) dict \<Rightarrow> (string, string) dict \<Rightarrow> count_df \<Rightarrow> error + fval list list"
where
  "divide_rows ref input_taxa_map df =
     (case grand_total ref of
        Inl e \<Rightarrow> Inl e
      | Inr gt \<Rightarrow>
          correct_rows ref input_taxa_map gt (df_index df)
            [0..<length (df_index df)] (df_columns df))"

text \<open>Line 67: every column is divided by its sum.\<close>

definition make_relative :: "fval list \<Rightarrow> fval list" where
  "make_relative c = map (\<lambda>x. fdiv x (col_sum c)) c"

text \<open>\<^verbatim>\<open>normalise\<close>: the table that is written to the output file.\<close>

definition normalise ::
  "(string, fval) dict \<Rightarrow> (string, string) dict \<Rightarrow> count_df \<Rightarrow> error + count_df"
where
  "normalise ref input_taxa_map df =
     (case divide_rows ref input_taxa_map df of
        Inl e \<Rightarrow> Inl e
      | Inr cols \<Rightarrow> Inr (df\<lparr>df_columns := map make_relative cols\<rparr>))"

text \<open>
  The whole run: the constructor curates the database and the input, then
  \<^verbatim>\<open>normalise\<close> writes the output. An exception ends the run before the file is
  written.
\<close>

definition rrna_norm ::
  "(string \<Rightarrow> fval option) \<Rightarrow> string list \<Rightarrow> count_df \<Rightarrow> error + count_df"
where
  "rrna_norm pyfloat db_lines df =
     (case curate_db pyfloat db_lines of
        Inl e \<Rightarrow> Inl e
      | Inr st \<Rightarrow>
          (case curate_input (taxa_to_rrna_copy_dict st) (df_index df) of
             Inl e \<Rightarrow> Inl e
           | Inr input_taxa_map \<Rightarrow>
               normalise (taxa_to_rrna_copy_dict st) input_taxa_map df))"

text \<open>
  The values of Python's \<^verbatim>\<open>float\<close> on the literals of the examples below, for the
  parameter \<open>pyfloat\<close>.
\<close>

definition float_lit :: "string \<Rightarrow> fval option" where
  "float_lit s =
     (if s = ''0.0'' then Some (Fin 0)
      else if s = ''2.0'' then Some (Fin 2)
      else if s = ''3.0'' then Some (Fin 3)
      else if s = ''5.0'' then Some (Fin 5)
      else None)"

text \<open>
  The key that one round of the loop of \<^verbatim>\<open>_curate_input\<close> stores for a taxon with
  labels that is not mapped yet: the full key when the reference has it, otherwise the
  result of the shortening loop (\<open>None\<close>: the taxon stays unmapped).
\<close>

definition resolve :: "taxa_reg_ex list \<Rightarrow> (string, fval) dict \<Rightarrow> string \<Rightarrow> string option" where
  "resolve regs ref taxa_a =
     (let key_items_list = input_key_items regs taxa_a;
          str_key_to_add = join '';'' key_items_list
      in if map_of ref str_key_to_add \<noteq> None then Some str_key_to_add
         else shorten_loop ref key_items_list
                (py_range_down (- 1) (- 1 * int (length key_items_list))))"

section \<open>Records of the reference file\<close>

text \<open>
  What one line of the reference file contributes, for stating properties of
  \<^verbatim>\<open>_curate_db\<close> in terms of the lines. \<open>raw_key\<close> is the key that the main loop
  builds from a raw taxonomy string (\<open>None\<close>: no label, the entry is skipped);
  \<open>factor_of\<close> is the entry that lines 98 to 100 store for the fields of a line;
  \<open>is_record\<close> is the test of line 94.
\<close>

definition raw_key :: "taxa_reg_ex list \<Rightarrow> string \<Rightarrow> string option" where
  "raw_key regs raw =
     (let key_items_list = db_key_items regs raw in
      if key_items_list \<noteq> [] then Some (join '';'' key_items_list) else None)"

definition factor_of :: "(string \<Rightarrow> fval option) \<Rightarrow> string list \<Rightarrow> (string \<times> fval) option" where
  "factor_of pyfloat two_i_list =
     (case two_i_list of
        [a, b] \<Rightarrow> map_option (Pair a) (pyfloat b)
      | _ \<Rightarrow> None)"

definition is_record :: "string \<Rightarrow> bool" where
  "is_record line = (case line of [] \<Rightarrow> False | c # cs \<Rightarrow> c = CHR ''k'')"

definition line_record :: "(string \<Rightarrow> fval option) \<Rightarrow> string \<Rightarrow> (string \<times> fval) option" where
  "line_record pyfloat line = factor_of pyfloat (two_fields (rstrip line))"

definition line_key :: "(string \<Rightarrow> fval option) \<Rightarrow> string \<Rightarrow> string option" where
  "line_key pyfloat line =
     (if is_record line then
        (case line_record pyfloat line of
           None \<Rightarrow> None
         | Some (raw, v) \<Rightarrow> raw_key generate_taxa_reg_exs raw)
      else None)"

text \<open>
  The two dictionaries of the state of \<^verbatim>\<open>_curate_db\<close> read at one key: the copy
  number stored for it and the count reported for it.
\<close>

definition lookups :: "string \<Rightarrow> db_state \<Rightarrow> fval option \<times> nat option" where
  "lookups k st = (map_of (taxa_to_rrna_copy_dict st) k, map_of (already_present_dict st) k)"

text \<open>The number that a finite value stands for (0 for the others), for stating sums.\<close>

fun val :: "fval \<Rightarrow> real" where
  "val (Fin x) = x"
| "val x = 0"

section \<open>Properties of the parser\<close>

lemma db_key_items_takeWhile:
  "db_key_items rs s =
     map (\<lambda>r. the (search r s)) (takeWhile (\<lambda>r. search r s \<noteq> None) rs)"
  by (induction rs) (auto split: option.splits)

lemma input_key_items_takeWhile:
  "input_key_items rs s =
     map (\<lambda>r. rstrip (the (search r s))) (takeWhile (\<lambda>r. search r s \<noteq> None) rs)"
  by (induction rs) (auto split: option.splits)

lemma length_takeWhile_first_failure:
  "i < length rs \<Longrightarrow> \<not> P (rs ! i) \<Longrightarrow> length (takeWhile P rs) \<le> i"
  by (induction rs arbitrary: i) (auto simp: nth_Cons split: nat.splits)

text \<open>
  Claim C5. The seven rank patterns are applied in the order kingdom to species, and the
  first pattern without a match ends the extraction: the labels are those of the
  patterns before the first failing one, so when rank \<open>i\<close> fails the result has at most
  \<open>i\<close> labels, and no rank after \<open>i\<close> contributes one, wherever its tag stands in the
  string. This holds for the loop of the reference curator and for the loop of the input
  reconciler.
\<close>

theorem parser_prefix_monotonic:
  "db_key_items generate_taxa_reg_exs s =
     map (\<lambda>r. the (search r s))
       (takeWhile (\<lambda>r. search r s \<noteq> None) generate_taxa_reg_exs)
   \<and> input_key_items generate_taxa_reg_exs s =
     map (\<lambda>r. rstrip (the (search r s)))
       (takeWhile (\<lambda>r. search r s \<noteq> None) generate_taxa_reg_exs)
   \<and> (\<forall>i < length generate_taxa_reg_exs.
        search (generate_taxa_reg_exs ! i) s = None \<longrightarrow>
          length (db_key_items generate_taxa_reg_exs s) \<le> i
          \<and> length (input_key_items generate_taxa_reg_exs s) \<le> i)"
proof (intro conjI allI impI)
  show "db_key_items generate_taxa_reg_exs s =
     map (\<lambda>r. the (search r s))
       (takeWhile (\<lambda>r. search r s \<noteq> None) generate_taxa_reg_exs)"
    by (rule db_key_items_takeWhile)
  show "input_key_items generate_taxa_reg_exs s =
     map (\<lambda>r. rstrip (the (search r s)))
       (takeWhile (\<lambda>r. search r s \<noteq> None) generate_taxa_reg_exs)"
    by (rule input_key_items_takeWhile)
next
  fix i
  assume i: "i < length generate_taxa_reg_exs"
    and none: "search (generate_taxa_reg_exs ! i) s = None"
  have "length (takeWhile (\<lambda>r. search r s \<noteq> None) generate_taxa_reg_exs) \<le> i"
    using i none by (intro length_takeWhile_first_failure) simp_all
  then show "length (db_key_items generate_taxa_reg_exs s) \<le> i"
    and "length (input_key_items generate_taxa_reg_exs s) \<le> i"
    by (simp_all add: db_key_items_takeWhile input_key_items_takeWhile)
qed

text \<open>
  In \<^verbatim>\<open>k__A;c__C;\<close> the phylum is missing: the class pattern would match, but the
  result stops after the kingdom.
\<close>

theorem parser_prefix_monotonic_witness:
  "search (generate_taxa_reg_exs ! 1) ''k__A;c__C;'' = None
   \<and> search (generate_taxa_reg_exs ! 2) ''k__A;c__C;'' = Some ''C''
   \<and> length (db_key_items generate_taxa_reg_exs ''k__A;c__C;'') \<le> 1
   \<and> length (input_key_items generate_taxa_reg_exs ''k__A;c__C;'') \<le> 1"
proof -
  have p: "search (generate_taxa_reg_exs ! 1) ''k__A;c__C;'' = None"
    by code_simp
  have c: "search (generate_taxa_reg_exs ! 2) ''k__A;c__C;'' = Some ''C''"
    by code_simp
  have n: "(1::nat) < length generate_taxa_reg_exs"
    by (simp add: generate_taxa_reg_exs_def)
  from parser_prefix_monotonic [of "''k__A;c__C;''"] n p
  have "length (db_key_items generate_taxa_reg_exs ''k__A;c__C;'') \<le> 1
      \<and> length (input_key_items generate_taxa_reg_exs ''k__A;c__C;'') \<le> 1"
    by blast
  with p c show ?thesis by simp
qed

section \<open>The input reconciler\<close>

lemma shorten_loop_find:
  "shorten_loop ref items js =
     map_option (\<lambda>i. join '';'' (py_slice_to items i))
       (find (\<lambda>i. map_of ref (join '';'' (py_slice_to items i)) \<noteq> None) js)"
  by (induction js) (simp_all add: Let_def)

lemma py_range_down_slices:
  "map (py_slice_to items) (py_range_down (- 1) (- 1 * int (length items))) =
     map (\<lambda>k. take k items) (rev [1..<length items])"
proof (rule nth_equalityI)
  show "length (map (py_slice_to items) (py_range_down (- 1) (- 1 * int (length items)))) =
        length (map (\<lambda>k. take k items) (rev [1..<length items]))"
    by (simp add: py_range_down_def)
next
  fix i
  assume "i < length (map (py_slice_to items) (py_range_down (- 1) (- 1 * int (length items))))"
  then have i: "i < length items - 1" by (simp add: py_range_down_def)
  then have "rev [1..<length items] ! i = length items - 1 - i"
    by (simp add: rev_nth)
  moreover have "nat (int (length items) + (- 1 - int i)) = length items - 1 - i"
    using i by linarith
  then have "py_slice_to items (- 1 - int i) = take (length items - 1 - i) items"
    by (simp add: py_slice_to_def)
  ultimately show "map (py_slice_to items) (py_range_down (- 1) (- 1 * int (length items))) ! i =
        map (\<lambda>k. take k items) (rev [1..<length items]) ! i"
    using i by (simp add: py_range_down_def)
qed

lemma shorten_loop_prefixes:
  "shorten_loop ref items (py_range_down (- 1) (- 1 * int (length items))) =
     map_option (\<lambda>k. join '';'' (take k items))
       (find (\<lambda>k. map_of ref (join '';'' (take k items)) \<noteq> None) (rev [1..<length items]))"
proof -
  have *: "\<And>js ks. map (py_slice_to items) js = map (\<lambda>k. take k items) ks \<Longrightarrow>
     map_option (\<lambda>i. join '';'' (py_slice_to items i))
       (find (\<lambda>i. map_of ref (join '';'' (py_slice_to items i)) \<noteq> None) js) =
     map_option (\<lambda>k. join '';'' (take k items))
       (find (\<lambda>k. map_of ref (join '';'' (take k items)) \<noteq> None) ks)"
  proof -
    fix js :: "int list" and ks :: "nat list"
    show "map (py_slice_to items) js = map (\<lambda>k. take k items) ks \<Longrightarrow>
     map_option (\<lambda>i. join '';'' (py_slice_to items i))
       (find (\<lambda>i. map_of ref (join '';'' (py_slice_to items i)) \<noteq> None) js) =
     map_option (\<lambda>k. join '';'' (take k items))
       (find (\<lambda>k. map_of ref (join '';'' (take k items)) \<noteq> None) ks)"
      by (induction js arbitrary: ks) auto
  qed
  show ?thesis
    unfolding shorten_loop_find by (rule *) (rule py_range_down_slices)
qed

lemma find_rev_upt_Some:
  "find P (rev [a..<b]) = Some k \<longleftrightarrow> (a \<le> k \<and> k < b \<and> P k \<and> (\<forall>j. k < j \<and> j < b \<longrightarrow> \<not> P j))"
proof (induction b)
  case 0
  then show ?case by simp
next
  case (Suc b)
  show ?case
  proof (cases "a \<le> b")
    case True
    then show ?thesis using Suc
      by (auto simp: less_Suc_eq)
  next
    case False
    then show ?thesis by auto
  qed
qed

lemma find_rev_upt_None:
  "find P (rev [a..<b]) = None \<longleftrightarrow> (\<forall>k. a \<le> k \<and> k < b \<longrightarrow> \<not> P k)"
  by (auto simp: find_None_iff)

lemma join_take_prefix:
  "1 \<le> k \<Longrightarrow> \<exists>rest. join sep xs = join sep (take k xs) @ rest"
proof (induction sep xs arbitrary: k rule: join.induct)
  case (1 sep)
  then show ?case by simp
next
  case (2 sep x)
  then show ?case by (cases k) simp_all
next
  case (3 sep x y ys)
  show ?case
  proof (cases k)
    case 0
    with 3 show ?thesis by simp
  next
    case (Suc k')
    show ?thesis
    proof (cases k')
      case 0
      with Suc show ?thesis by simp
    next
      case (Suc k'')
      with 3(1)[of k'] obtain rest where "join sep (y # ys) = join sep (take k' (y # ys)) @ rest"
        by auto
      with \<open>k = Suc k'\<close> Suc show ?thesis by simp
    qed
  qed
qed


lemma input_step_cases:
  "input_step regs ref t m =
     (if map_of m t \<noteq> None then Inr m
      else if input_key_items regs t = [] then Inl RuntimeError
      else (case resolve regs ref t of
              Some k \<Rightarrow> Inr (AList.update t k m)
            | None \<Rightarrow> Inr m))"
  by (simp add: input_step_def resolve_def Let_def split: option.splits)

lemma input_loop_lookup:
  "input_loop regs ref idx m0 = Inr m \<Longrightarrow>
   map_of m t =
     (case map_of m0 t of
        Some k \<Rightarrow> Some k
      | None \<Rightarrow> if t \<in> set idx then resolve regs ref t else None)"
proof (induction idx arbitrary: m0)
  case Nil
  then show ?case by (simp split: option.splits)
next
  case (Cons a idx)
  from Cons.prems obtain m' where step: "input_step regs ref a m0 = Inr m'"
    and rest: "input_loop regs ref idx m' = Inr m"
    by (auto split: sum.splits)
  note IH = Cons.IH [OF rest]
  from step show ?case unfolding IH
    by (auto simp: input_step_cases update_conv' split: if_splits option.splits)
qed

lemma curate_input_lookup:
  "curate_input ref idx = Inr m \<Longrightarrow>
   map_of m t = (if t \<in> set idx then resolve generate_taxa_reg_exs ref t else None)"
  unfolding curate_input_def by (drule input_loop_lookup [where t = t]) simp

lemma input_loop_unparseable:
  "t \<in> set idx \<Longrightarrow> input_key_items regs t = [] \<Longrightarrow> map_of m0 t = None \<Longrightarrow>
   input_loop regs ref idx m0 = Inl RuntimeError"
proof (induction idx arbitrary: m0)
  case Nil
  then show ?case by simp
next
  case (Cons a idx)
  show ?case
  proof (cases "input_step regs ref a m0")
    case (Inl e)
    then have "e = RuntimeError"
      by (auto simp: input_step_cases split: if_splits option.splits)
    with Inl show ?thesis by simp
  next
    case (Inr m')
    with Cons.prems have neq: "t \<noteq> a"
      by (auto simp: input_step_cases split: if_splits)
    with Inr Cons.prems have "map_of m' t = None"
      by (auto simp: input_step_cases update_conv' split: if_splits option.splits)
    with Cons.IH [of m'] Cons.prems neq Inr show ?thesis by simp
  qed
qed

lemma resolve_absent:
  "map_of ref (join '';'' (input_key_items regs t)) = None \<Longrightarrow>
   resolve regs ref t =
     map_option (\<lambda>k. join '';'' (take k (input_key_items regs t)))
       (find (\<lambda>k. map_of ref (join '';'' (take k (input_key_items regs t))) \<noteq> None)
          (rev [1..<length (input_key_items regs t)]))"
  using shorten_loop_prefixes [of ref "input_key_items regs t"]
  by (simp add: resolve_def Let_def)

lemma resolve_present:
  "map_of ref (join '';'' (input_key_items regs t)) \<noteq> None \<Longrightarrow>
   resolve regs ref t = Some (join '';'' (input_key_items regs t))"
  by (simp add: resolve_def Let_def)

lemma reconciler_parts:
  assumes "curate_input ref idx = Inr m" and "t \<in> set idx"
  defines "items \<equiv> input_key_items generate_taxa_reg_exs t"
  shows "map_of ref (join '';'' items) = None \<Longrightarrow>
         (case map_of m t of
            None \<Rightarrow>
              \<forall>k. 1 \<le> k \<and> k < length items \<longrightarrow> map_of ref (join '';'' (take k items)) = None
          | Some key \<Rightarrow>
              \<exists>k. 1 \<le> k \<and> k < length items \<and> key = join '';'' (take k items)
                \<and> map_of ref key \<noteq> None
                \<and> (\<forall>j. k < j \<and> j < length items \<longrightarrow>
                       map_of ref (join '';'' (take j items)) = None))"
    and "map_of m t = Some key \<Longrightarrow>
         \<exists>k rest. 1 \<le> k \<and> k \<le> length items \<and> key = join '';'' (take k items)
           \<and> join '';'' items = key @ rest"
proof -
  have lookup: "map_of m t = resolve generate_taxa_reg_exs ref t"
    using assms(1,2) by (simp add: curate_input_lookup)
  have nonempty: "items \<noteq> []"
    using input_loop_unparseable [of t idx generate_taxa_reg_exs "[]" ref] assms(1,2)
    by (auto simp: curate_input_def items_def)
  let ?P = "\<lambda>k. map_of ref (join '';'' (take k items)) \<noteq> None"
  show "(case map_of m t of
            None \<Rightarrow>
              \<forall>k. 1 \<le> k \<and> k < length items \<longrightarrow> map_of ref (join '';'' (take k items)) = None
          | Some key \<Rightarrow>
              \<exists>k. 1 \<le> k \<and> k < length items \<and> key = join '';'' (take k items)
                \<and> map_of ref key \<noteq> None
                \<and> (\<forall>j. k < j \<and> j < length items \<longrightarrow>
                       map_of ref (join '';'' (take j items)) = None))"
    if absent: "map_of ref (join '';'' items) = None"
  proof -
    have m: "map_of m t =
        map_option (\<lambda>k. join '';'' (take k items)) (find ?P (rev [1..<length items]))"
      using absent unfolding lookup items_def by (rule resolve_absent)
    show ?thesis
    proof (cases "find ?P (rev [1..<length items])")
      case None
      then show ?thesis unfolding m using find_rev_upt_None [of ?P 1 "length items"]
        by simp
    next
      case (Some k)
      then show ?thesis unfolding m using find_rev_upt_Some [of ?P 1 "length items" k]
        by auto
    qed
  qed
  show "\<exists>k rest. 1 \<le> k \<and> k \<le> length items \<and> key = join '';'' (take k items)
           \<and> join '';'' items = key @ rest"
    if key: "map_of m t = Some key"
  proof (cases "map_of ref (join '';'' items) = None")
    case False
    then have "key = join '';'' items"
      using key resolve_present [of ref generate_taxa_reg_exs t]
      unfolding lookup items_def by simp
    with nonempty show ?thesis
      by (intro exI [of _ "length items"] exI [of _ "[]"]) (cases items; simp)
  next
    case True
    have "map_option (\<lambda>k. join '';'' (take k items)) (find ?P (rev [1..<length items]))
        = Some key"
      using key resolve_absent [of ref generate_taxa_reg_exs t] True
      unfolding lookup items_def by simp
    then obtain k where "find ?P (rev [1..<length items]) = Some k"
      and k: "key = join '';'' (take k items)"
      by auto
    then have "1 \<le> k" "k < length items"
      using find_rev_upt_Some [of ?P 1 "length items" k] by auto
    moreover from join_take_prefix [OF \<open>1 \<le> k\<close>, of "'';''" items]
    obtain rest where "join '';'' items = key @ rest" unfolding k by blast
    ultimately show ?thesis using k by auto
  qed
qed

text \<open>
  Claim C1. Let a taxon of the input have the labels \<open>items\<close> (\<open>n\<close> of them). The
  shortening loop tests the prefixes of \<open>items\<close> of the lengths \<open>n - 1\<close> down to 1, in
  this order, one rank less each time. When the full key is not in the reference, the
  taxon is mapped to the key of the longest prefix of a length from 1 to \<open>n - 1\<close> whose
  key is in the reference, and it stays unmapped when there is none. Whatever the taxon
  is mapped to is the key of a prefix of \<open>items\<close>, so it is never longer than the full
  key.
\<close>

theorem reconciler_longest_prefix:
  assumes "curate_input ref idx = Inr m" and "t \<in> set idx"
    and "items = input_key_items generate_taxa_reg_exs t"
  shows "map (py_slice_to items) (py_range_down (- 1) (- 1 * int (length items))) =
           map (\<lambda>k. take k items) (rev [1..<length items])
       \<and> (map_of ref (join '';'' items) = None \<longrightarrow>
           (case map_of m t of
              None \<Rightarrow>
                \<forall>k. 1 \<le> k \<and> k < length items \<longrightarrow>
                  map_of ref (join '';'' (take k items)) = None
            | Some key \<Rightarrow>
                \<exists>k. 1 \<le> k \<and> k < length items \<and> key = join '';'' (take k items)
                  \<and> map_of ref key \<noteq> None
                  \<and> (\<forall>j. k < j \<and> j < length items \<longrightarrow>
                         map_of ref (join '';'' (take j items)) = None)))
       \<and> (\<forall>key. map_of m t = Some key \<longrightarrow>
             (\<exists>k rest. 1 \<le> k \<and> k \<le> length items \<and> key = join '';'' (take k items)
                \<and> join '';'' items = key @ rest))"
  using reconciler_parts [OF assms(1,2)] py_range_down_slices [of items]
  unfolding assms(3) by blast

text \<open>
  The reference has \<^verbatim>\<open>A\<close> and \<^verbatim>\<open>A;B\<close>; the taxon with the labels A, B, C is mapped
  to \<^verbatim>\<open>A;B\<close>, the longer of the two.
\<close>

theorem reconciler_longest_prefix_witness:
  "curate_input [(''A'', Fin 2), (''A;B'', Fin 3)] [''k__A; p__B; c__C;''] =
     Inr [(''k__A; p__B; c__C;'', ''A;B'')]
   \<and> ''k__A; p__B; c__C;'' \<in> set [''k__A; p__B; c__C;'']
   \<and> [''A'', ''B'', ''C''] = input_key_items generate_taxa_reg_exs ''k__A; p__B; c__C;''
   \<and> map_of [(''A'', Fin 2), (''A;B'', Fin 3)] (join '';'' [''A'', ''B'', ''C'']) = None
   \<and> (\<exists>k. 1 \<le> k \<and> k < length [''A'', ''B'', ''C'']
         \<and> ''A;B'' = join '';'' (take k [''A'', ''B'', ''C''])
         \<and> map_of [(''A'', Fin 2), (''A;B'', Fin 3)] ''A;B'' \<noteq> None
         \<and> (\<forall>j. k < j \<and> j < length [''A'', ''B'', ''C''] \<longrightarrow>
               map_of [(''A'', Fin 2), (''A;B'', Fin 3)]
                 (join '';'' (take j [''A'', ''B'', ''C''])) = None))
   \<and> (\<exists>k rest. 1 \<le> k \<and> k \<le> length [''A'', ''B'', ''C'']
         \<and> ''A;B'' = join '';'' (take k [''A'', ''B'', ''C''])
         \<and> join '';'' [''A'', ''B'', ''C''] = ''A;B'' @ rest)"
proof -
  have h1: "curate_input [(''A'', Fin 2), (''A;B'', Fin 3)] [''k__A; p__B; c__C;''] =
     Inr [(''k__A; p__B; c__C;'', ''A;B'')]"
    by code_simp
  have h2: "''k__A; p__B; c__C;'' \<in> set [''k__A; p__B; c__C;'']"
    by simp
  have h3: "[''A'', ''B'', ''C''] = input_key_items generate_taxa_reg_exs ''k__A; p__B; c__C;''"
    by code_simp
  have h4: "map_of [(''A'', Fin 2), (''A;B'', Fin 3)] (join '';'' [''A'', ''B'', ''C'']) = None"
    by simp
  note inst = reconciler_longest_prefix [OF h1 h2 h3]
  from inst h4
  have longest: "\<exists>k. 1 \<le> k \<and> k < length [''A'', ''B'', ''C'']
         \<and> ''A;B'' = join '';'' (take k [''A'', ''B'', ''C''])
         \<and> map_of [(''A'', Fin 2), (''A;B'', Fin 3)] ''A;B'' \<noteq> None
         \<and> (\<forall>j. k < j \<and> j < length [''A'', ''B'', ''C''] \<longrightarrow>
               map_of [(''A'', Fin 2), (''A;B'', Fin 3)]
                 (join '';'' (take j [''A'', ''B'', ''C''])) = None)"
    by simp
  from inst
  have "\<exists>k rest. 1 \<le> k \<and> k \<le> length [''A'', ''B'', ''C'']
         \<and> ''A;B'' = join '';'' (take k [''A'', ''B'', ''C''])
         \<and> join '';'' [''A'', ''B'', ''C''] = ''A;B'' @ rest"
    by simp
  with h1 h2 h3 h4 longest show ?thesis by blast
qed

lemma input_loop_error:
  "input_loop regs ref idx m0 = Inl e \<Longrightarrow> e = RuntimeError"
proof (induction idx arbitrary: m0)
  case Nil
  then show ?case by simp
next
  case (Cons a idx)
  then show ?case
    by (cases "input_step regs ref a m0")
       (auto simp: input_step_cases split: if_splits option.splits)
qed

lemma keep_lines_error:
  "keep_lines ls = Inl e \<Longrightarrow> e = IndexError"
  by (induction ls arbitrary: e) (auto split: list.splits sum.splits)

lemma read_factors_error:
  "read_factors pyfloat tds d = Inl e \<Longrightarrow> e = IndexError \<or> e = ValueError"
  by (induction pyfloat tds d rule: read_factors.induct)
     (auto split: list.splits option.splits)

lemma curate_db_error:
  "curate_db pyfloat ls = Inl e \<Longrightarrow> e = IndexError \<or> e = ValueError"
  by (auto simp: curate_db_def split: sum.splits dest: keep_lines_error read_factors_error)

lemma shorten_loop_in_ref:
  "shorten_loop ref items js = Some key \<Longrightarrow> map_of ref key \<noteq> None"
  by (induction js) (auto simp: Let_def split: if_splits)

lemma resolve_in_ref:
  "resolve regs ref t = Some key \<Longrightarrow> map_of ref key \<noteq> None"
  by (auto simp: resolve_def Let_def split: if_splits dest: shorten_loop_in_ref)

lemma input_step_distinct:
  "input_step regs ref t m = Inr m' \<Longrightarrow> distinct (map fst m) \<Longrightarrow> distinct (map fst m')"
  by (auto simp: input_step_cases distinct_update split: if_splits option.splits)

lemma input_loop_distinct:
  "input_loop regs ref idx m0 = Inr m \<Longrightarrow> distinct (map fst m0) \<Longrightarrow> distinct (map fst m)"
proof (induction idx arbitrary: m0)
  case Nil
  then show ?case by simp
next
  case (Cons a idx)
  then show ?case
    by (cases "input_step regs ref a m0") (auto dest: input_step_distinct)
qed

lemma curate_input_values_in_ref:
  assumes "curate_input ref idx = Inr m" and "(t, key) \<in> set m"
  shows "map_of ref key \<noteq> None"
proof -
  have "distinct (map fst m)"
    using assms(1) input_loop_distinct [of generate_taxa_reg_exs ref idx "[]" m]
    by (simp add: curate_input_def)
  with assms(2) have "map_of m t = Some key" by simp
  with curate_input_lookup [OF assms(1), of t]
  have "resolve generate_taxa_reg_exs ref t = Some key"
    by (auto split: if_splits)
  then show ?thesis by (rule resolve_in_ref)
qed

lemma correct_rows_error:
  "correct_rows ref m gt names js cols = Inl e \<Longrightarrow> \<exists>name. row_divisor ref m gt name = Inl e"
  by (induction js arbitrary: cols) (auto split: sum.splits)

lemma row_divisor_KeyError:
  "row_divisor ref m gt name = Inl e \<Longrightarrow>
   e = KeyError \<and> (\<exists>key. map_of m name = Some key \<and> map_of ref key = None)"
  by (auto simp: row_divisor_def split: option.splits)

lemma normalise_error:
  "normalise ref m df = Inl e \<Longrightarrow>
   (e = ZeroDivisionError \<and> ref = []) \<or>
   (e = KeyError \<and> (\<exists>name key. map_of m name = Some key \<and> map_of ref key = None))"
  by (auto simp: normalise_def divide_rows_def grand_total_def
      split: sum.splits if_splits dest!: correct_rows_error row_divisor_KeyError)

lemma rrna_norm_no_KeyError:
  "rrna_norm pyfloat db_lines df \<noteq> Inl KeyError"
proof
  assume err: "rrna_norm pyfloat db_lines df = Inl KeyError"
  show False
  proof (cases "curate_db pyfloat db_lines")
    case (Inl e)
    with err curate_db_error [OF Inl] show False
      by (auto simp: rrna_norm_def)
  next
    case (Inr st)
    show False
    proof (cases "curate_input (taxa_to_rrna_copy_dict st) (df_index df)")
      case (Inl e)
      with err Inr input_loop_error [of generate_taxa_reg_exs _ _ "[]" e] show False
        by (auto simp: rrna_norm_def curate_input_def)
    next
      case m: (Inr m)
      with err Inr have "normalise (taxa_to_rrna_copy_dict st) m df = Inl KeyError"
        by (simp add: rrna_norm_def)
      then obtain name key where "map_of m name = Some key"
        and "map_of (taxa_to_rrna_copy_dict st) key = None"
        by (auto dest!: normalise_error)
      with curate_input_values_in_ref [OF m, of name key] show False
        by (auto dest: map_of_SomeD)
    qed
  qed
qed

text \<open>
  Claim C10. Every key stored as a value of \<^verbatim>\<open>input_taxa_map\<close> is a key of the
  reference table, so the lookup of line 63 never raises \<^verbatim>\<open>KeyError\<close>: not in
  \<^verbatim>\<open>normalise\<close> run on the map that \<^verbatim>\<open>_curate_input\<close> built, and not in the whole
  run.
\<close>

theorem mapped_keys_in_reference:
  assumes "curate_input ref idx = Inr m"
  shows "(\<forall>(t, key) \<in> set m. key \<in> fst ` set ref)
       \<and> (\<forall>gt name. row_divisor ref m gt name \<noteq> Inl KeyError)
       \<and> (\<forall>df. normalise ref m df \<noteq> Inl KeyError)
       \<and> (\<forall>pyfloat db_lines df. rrna_norm pyfloat db_lines df \<noteq> Inl KeyError)"
proof (intro conjI allI)
  have in_ref: "map_of ref key \<noteq> None" if "map_of m t = Some key" for t key
    using that curate_input_values_in_ref [OF assms] by (auto dest: map_of_SomeD)
  show "\<forall>(t, key) \<in> set m. key \<in> fst ` set ref"
    using curate_input_values_in_ref [OF assms]
    by (auto simp: map_of_eq_None_iff)
  show "row_divisor ref m gt name \<noteq> Inl KeyError" for gt name
    using in_ref by (fastforce dest!: row_divisor_KeyError)
  show "normalise ref m df \<noteq> Inl KeyError" for df
    using in_ref by (fastforce dest!: normalise_error)
  show "rrna_norm pyfloat db_lines df \<noteq> Inl KeyError" for pyfloat db_lines df
    by (rule rrna_norm_no_KeyError)
qed

theorem mapped_keys_in_reference_witness:
  "curate_input [(''A'', Fin 2), (''A;B'', Fin 3)] [''k__A; p__B; c__C;'', ''k__Z;''] =
     Inr [(''k__A; p__B; c__C;'', ''A;B'')]
   \<and> ''A;B'' \<in> fst ` set [(''A'', Fin 2), (''A;B'', Fin 3)]
   \<and> row_divisor [(''A'', Fin 2), (''A;B'', Fin 3)] [(''k__A; p__B; c__C;'', ''A;B'')]
        (Fin 1) ''k__A; p__B; c__C;'' \<noteq> Inl KeyError"
proof -
  have h: "curate_input [(''A'', Fin 2), (''A;B'', Fin 3)] [''k__A; p__B; c__C;'', ''k__Z;''] =
     Inr [(''k__A; p__B; c__C;'', ''A;B'')]"
    by code_simp
  note inst = mapped_keys_in_reference [OF h]
  from inst have "''A;B'' \<in> fst ` set [(''A'', Fin 2), (''A;B'', Fin 3)]"
    by simp
  moreover from inst
  have "row_divisor [(''A'', Fin 2), (''A;B'', Fin 3)] [(''k__A; p__B; c__C;'', ''A;B'')]
        (Fin 1) ''k__A; p__B; c__C;'' \<noteq> Inl KeyError"
    by blast
  ultimately show ?thesis using h by blast
qed

text \<open>
  Claim C7. When some taxon of the input index gives no label at all,
  \<^verbatim>\<open>_curate_input\<close> raises \<^verbatim>\<open>RuntimeError\<close>, whatever the other rows and the reference
  are. The run then ends in an exception and writes no output: in the exception of
  \<^verbatim>\<open>_curate_input\<close> when the curation of the database went through.
\<close>

theorem unparseable_taxon_fatal:
  assumes "t \<in> set idx" and "input_key_items generate_taxa_reg_exs t = []"
  shows "curate_input ref idx = Inl RuntimeError
       \<and> (\<forall>pyfloat db_lines df. df_index df = idx \<longrightarrow>
            (\<exists>e. rrna_norm pyfloat db_lines df = Inl e)
            \<and> (\<forall>st. curate_db pyfloat db_lines = Inr st \<longrightarrow>
                  rrna_norm pyfloat db_lines df = Inl RuntimeError))"
proof -
  have fatal: "curate_input r idx = Inl RuntimeError" for r
    unfolding curate_input_def using assms by (intro input_loop_unparseable) simp_all
  then show ?thesis
    by (auto simp: rrna_norm_def split: sum.splits)
qed

theorem unparseable_taxon_fatal_witness:
  "''garbled'' \<in> set [''k__A;'', ''garbled'', ''k__B;'']
   \<and> input_key_items generate_taxa_reg_exs ''garbled'' = []
   \<and> curate_input [(''A'', Fin 2)] [''k__A;'', ''garbled'', ''k__B;''] = Inl RuntimeError
   \<and> rrna_norm float_lit [''k__A;'' @ [CHR 0x09] @ ''2.0'' @ [CHR 0x0A]]
        \<lparr>df_index = [''k__A;'', ''garbled'', ''k__B;''],
         df_columns = [[Fin 1, Fin 2, Fin 3]],
         df_last = [''OTU1'', ''OTU2'', ''OTU3'']\<rparr> = Inl RuntimeError"
proof -
  have h1: "''garbled'' \<in> set [''k__A;'', ''garbled'', ''k__B;'']"
    by simp
  have h2: "input_key_items generate_taxa_reg_exs ''garbled'' = []"
    by code_simp
  have db: "curate_db float_lit [''k__A;'' @ [CHR 0x09] @ ''2.0'' @ [CHR 0x0A]] =
     Inr \<lparr>taxa_to_rrna_copy_dict = [(''A'', Fin 2)], count_added = 1,
          already_present_dict = []\<rparr>"
    by code_simp
  note inst = unparseable_taxon_fatal [OF h1 h2]
  from inst have "curate_input [(''A'', Fin 2)] [''k__A;'', ''garbled'', ''k__B;''] =
      Inl RuntimeError"
    by blast
  moreover from inst [of "[]"] db
  have "rrna_norm float_lit [''k__A;'' @ [CHR 0x09] @ ''2.0'' @ [CHR 0x0A]]
        \<lparr>df_index = [''k__A;'', ''garbled'', ''k__B;''],
         df_columns = [[Fin 1, Fin 2, Fin 3]],
         df_last = [''OTU1'', ''OTU2'', ''OTU3'']\<rparr> = Inl RuntimeError"
    by simp
  ultimately show ?thesis using h1 h2 by blast
qed

section \<open>The reference curator\<close>

lemma keep_lines_Inr:
  "keep_lines ls = Inr keep \<Longrightarrow> keep = map rstrip (filter is_record ls)"
  by (induction ls arbitrary: keep)
     (auto simp: is_record_def split: list.splits sum.splits if_splits)

lemma read_factors_Inr:
  "read_factors pyfloat tds d = Inr d' \<Longrightarrow>
   d' = foldl (\<lambda>d p. AList.update (fst p) (snd p) d) d (map (the \<circ> factor_of pyfloat) tds)
   \<and> (\<forall>td \<in> set tds. factor_of pyfloat td \<noteq> None)"
proof (induction tds arbitrary: d)
  case Nil
  then show ?case by simp
next
  case (Cons two_i_list rest)
  from Cons.prems obtain a b v where td: "two_i_list = [a, b]" and v: "pyfloat b = Some v"
    and rest: "read_factors pyfloat rest (AList.update a v d) = Inr d'"
    by (auto split: list.splits option.splits)
  from Cons.IH [OF rest] td v show ?case
    by (simp add: factor_of_def)
qed

lemma filter_update_keys:
  "filter (\<lambda>p. Q (fst p)) (AList.update a v d) =
     (if Q a then AList.update a v (filter (\<lambda>p. Q (fst p)) d) else filter (\<lambda>p. Q (fst p)) d)"
  by (induction d) auto

lemma filter_foldl_update:
  "filter (\<lambda>p. Q (fst p)) (foldl (\<lambda>d p. AList.update (fst p) (snd p) d) d ps) =
     foldl (\<lambda>d p. AList.update (fst p) (snd p) d) (filter (\<lambda>p. Q (fst p)) d)
       (filter (\<lambda>p. Q (fst p)) ps)"
  by (induction ps arbitrary: d) (simp_all add: filter_update_keys)



lemma db_step_raw_key:
  "db_step regs kv st =
     (case raw_key regs (fst kv) of
        None \<Rightarrow> st
      | Some key \<Rightarrow>
          if map_of (taxa_to_rrna_copy_dict st) key = None then
            st\<lparr>taxa_to_rrna_copy_dict := AList.update key (snd kv) (taxa_to_rrna_copy_dict st),
               count_added := count_added st + 1\<rparr>
          else
            st\<lparr>already_present_dict :=
                 AList.update key (default_get (already_present_dict st) key + 1)
                   (already_present_dict st)\<rparr>)"
  by (simp add: db_step_def raw_key_def Let_def)

lemma db_step_other_key:
  assumes "raw_key regs (fst kv) \<noteq> Some k"
  shows "lookups k (db_step regs kv st) = lookups k st"
proof (cases "raw_key regs (fst kv)")
  case None
  then show ?thesis by (simp add: db_step_raw_key)
next
  case (Some key)
  with assms have "key \<noteq> k" by simp
  with Some show ?thesis
    by (simp add: db_step_raw_key lookups_def update_conv')
qed

lemma db_step_same_key:
  assumes "raw_key regs (fst kv) = Some k"
  shows "lookups k (db_step regs kv st) =
     (case fst (lookups k st) of
        None \<Rightarrow> (Some (snd kv), snd (lookups k st))
      | Some v \<Rightarrow>
          (Some v, Some ((case snd (lookups k st) of None \<Rightarrow> 1 | Some n \<Rightarrow> n) + 1)))"
  using assms
  by (cases "map_of (taxa_to_rrna_copy_dict st) k")
     (simp_all add: db_step_raw_key lookups_def update_conv' default_get_def)


lemma db_step_lookups_cong:
  assumes "lookups k st1 = lookups k st2"
  shows "lookups k (db_step regs kv st1) = lookups k (db_step regs kv st2)"
proof (cases "raw_key regs (fst kv) = Some k")
  case True
  show ?thesis
    by (simp only: db_step_same_key [OF True] assms)
next
  case False
  show ?thesis
    by (simp only: db_step_other_key [OF False] assms)
qed

lemma db_loop_cong:
  "lookups k st1 = lookups k st2 \<Longrightarrow>
   lookups k (db_loop regs xs st1) = lookups k (db_loop regs xs st2)"
proof (induction xs arbitrary: st1 st2)
  case Nil
  then show ?case by simp
next
  case (Cons kv xs)
  from Cons.prems have "lookups k (db_step regs kv st1) = lookups k (db_step regs kv st2)"
    by (rule db_step_lookups_cong)
  then have "lookups k (db_loop regs xs (db_step regs kv st1)) =
      lookups k (db_loop regs xs (db_step regs kv st2))"
    by (rule Cons.IH)
  then show ?case by simp
qed

lemma db_loop_filter:
  "lookups k (db_loop regs xs st) =
   lookups k (db_loop regs (filter (\<lambda>p. raw_key regs (fst p) = Some k) xs) st)"
proof (induction xs arbitrary: st)
  case Nil
  then show ?case by simp
next
  case (Cons kv xs)
  show ?case
  proof (cases "raw_key regs (fst kv) = Some k")
    case True
    then show ?thesis by (simp add: Cons.IH)
  next
    case False
    have "lookups k (db_loop regs xs (db_step regs kv st)) =
          lookups k (db_loop regs xs st)"
      by (rule db_loop_cong) (rule db_step_other_key [OF False])
    with False show ?thesis by (simp add: Cons.IH)
  qed
qed


lemma line_key_iff:
  assumes "is_record l \<longrightarrow> line_record pyfloat l \<noteq> None"
  shows "line_key pyfloat l = Some k \<longleftrightarrow>
     is_record l \<and> raw_key generate_taxa_reg_exs (fst (the (line_record pyfloat l))) = Some k"
  using assms by (auto simp: line_key_def split: option.splits)

lemma curate_db_lookups:
  assumes "curate_db pyfloat input_file = Inr st"
  shows "lookups k st =
     lookups k
       (db_loop generate_taxa_reg_exs
          (foldl (\<lambda>d p. AList.update (fst p) (snd p) d) []
             (map (the \<circ> line_record pyfloat)
                (filter (\<lambda>l. line_key pyfloat l = Some k) input_file)))
          \<lparr>taxa_to_rrna_copy_dict = [], count_added = 0, already_present_dict = []\<rparr>)"
proof -
  let ?upd = "\<lambda>d p. AList.update (fst p) (snd p) d"
  let ?init = "\<lparr>taxa_to_rrna_copy_dict = [], count_added = 0, already_present_dict = []\<rparr>"
  let ?Q = "\<lambda>p :: string \<times> fval. raw_key generate_taxa_reg_exs (fst p) = Some k"
  let ?recs = "filter is_record input_file"
  from assms obtain keep factors where keep: "keep_lines input_file = Inr keep"
    and factors: "read_factors pyfloat (map two_fields keep) [] = Inr factors"
    and st: "st = db_loop generate_taxa_reg_exs factors ?init"
    by (auto simp: curate_db_def split: sum.splits)
  have keep_eq: "keep = map rstrip ?recs"
    using keep by (rule keep_lines_Inr)
  from read_factors_Inr [OF factors]
  have f1: "factors = foldl ?upd [] (map (the \<circ> factor_of pyfloat) (map two_fields keep))"
    and ok: "\<forall>td \<in> set (map two_fields keep). factor_of pyfloat td \<noteq> None"
    by simp_all
  have ps: "map (the \<circ> factor_of pyfloat) (map two_fields keep) =
      map (the \<circ> line_record pyfloat) ?recs"
    by (simp add: keep_eq line_record_def comp_def)
  have rec_ok: "line_record pyfloat l \<noteq> None" if "l \<in> set input_file" "is_record l" for l
    using ok that by (simp add: keep_eq line_record_def)
  have "filter ?Q factors =
      foldl ?upd [] (filter ?Q (map (the \<circ> line_record pyfloat) ?recs))"
    unfolding f1 ps
    using filter_foldl_update [of "\<lambda>a. raw_key generate_taxa_reg_exs a = Some k" "[]"]
    by simp
  also have "filter ?Q (map (the \<circ> line_record pyfloat) ?recs) =
      map (the \<circ> line_record pyfloat)
        (filter (\<lambda>l. is_record l \<and> ?Q (the (line_record pyfloat l))) input_file)"
    by (simp add: filter_map comp_def conj_commute)
  also have "filter (\<lambda>l. is_record l \<and> ?Q (the (line_record pyfloat l))) input_file =
      filter (\<lambda>l. line_key pyfloat l = Some k) input_file"
    by (rule filter_cong) (auto simp: line_key_iff rec_ok)
  finally have "filter ?Q factors =
      foldl ?upd [] (map (the \<circ> line_record pyfloat)
        (filter (\<lambda>l. line_key pyfloat l = Some k) input_file))" .
  then show ?thesis
    unfolding st using db_loop_filter [of k generate_taxa_reg_exs factors ?init] by simp
qed

text \<open>
  Claim C3, evaluated on a file of two record lines with the same raw taxonomy string
  \<^verbatim>\<open>k__A;\<close> and the values 3.0 and 5.0. The dictionary of lines 98 to 100 is keyed by
  the raw string, so the second line replaces the value of the first before the keys are
  built: the table holds 5.0, the value of the last record, where the message of
  \<^verbatim>\<open>_curate_db\<close> (\<^verbatim>\<open>For these keys the first associated value was used\<close>) and
  the claim promise the first. No duplicate is counted.
\<close>

theorem identical_raw_strings_last_value:
  "curate_db float_lit
     [''k__A;'' @ [CHR 0x09] @ ''3.0'' @ [CHR 0x0A],
      ''k__A;'' @ [CHR 0x09] @ ''5.0'' @ [CHR 0x0A]] =
   Inr \<lparr>taxa_to_rrna_copy_dict = [(''A'', Fin 5)], count_added = 1,
        already_present_dict = []\<rparr>"
  by code_simp

text \<open>
  Claim C4 as stated fails on the count. For two record lines with different raw
  strings, the same key \<^verbatim>\<open>A;B\<close> and the values 3.0 and 5.0, the entry is 3.0, and the
  count reported for the key is 2: \<^verbatim>\<open>already_present_dict\<close> is a
  \<^verbatim>\<open>defaultdict(lambda: 1)\<close>, so the first \<^verbatim>\<open>+= 1\<close> gives 2, the number of
  records of the key.
\<close>

theorem duplicate_count_counterexample:
  "curate_db float_lit
     [''k__A;p__B;'' @ [CHR 0x09] @ ''3.0'' @ [CHR 0x0A],
      ''k__[A];p__B;'' @ [CHR 0x09] @ ''5.0'' @ [CHR 0x0A]] =
   Inr \<lparr>taxa_to_rrna_copy_dict = [(''A;B'', Fin 3)], count_added = 1,
        already_present_dict = [(''A;B'', 2)]\<rparr>
   \<and> map_of [(''A;B'', 2 :: nat)] ''A;B'' \<noteq> Some 1"
  by code_simp

text \<open>
  Claim C4, amended. When exactly two record lines of the reference file give the key
  \<open>k\<close>, their raw taxonomy strings differ, and their values are \<open>v1\<close> and \<open>v2\<close> in
  this order (3.0 and 5.0 in the claim), the entry of the table for \<open>k\<close> is \<open>v1\<close> and
  the count reported for \<open>k\<close> is 2.
\<close>

theorem two_records_same_key:
  assumes "curate_db pyfloat input_file = Inr st"
    and "filter (\<lambda>l. line_key pyfloat l = Some k) input_file = [l1, l2]"
    and "line_record pyfloat l1 = Some (r1, v1)"
    and "line_record pyfloat l2 = Some (r2, v2)"
    and "r1 \<noteq> r2"
  shows "map_of (taxa_to_rrna_copy_dict st) k = Some v1
       \<and> map_of (already_present_dict st) k = Some 2"
proof -
  let ?init = "\<lparr>taxa_to_rrna_copy_dict = [], count_added = 0, already_present_dict = []\<rparr>"
  have "l1 \<in> set (filter (\<lambda>l. line_key pyfloat l = Some k) input_file)"
    and "l2 \<in> set (filter (\<lambda>l. line_key pyfloat l = Some k) input_file)"
    unfolding assms(2) by simp_all
  then have "line_key pyfloat l1 = Some k" and "line_key pyfloat l2 = Some k"
    by simp_all
  then have k1: "raw_key generate_taxa_reg_exs (fst (r1, v1)) = Some k"
    and k2: "raw_key generate_taxa_reg_exs (fst (r2, v2)) = Some k"
    using assms(3,4) by (auto simp: line_key_def split: if_splits)
  have upd: "foldl (\<lambda>d p. AList.update (fst p) (snd p) d) []
      (map (the \<circ> line_record pyfloat) [l1, l2]) = [(r1, v1), (r2, v2)]"
    using assms(3,4,5) by simp
  have "lookups k st =
      lookups k (db_loop generate_taxa_reg_exs [(r1, v1), (r2, v2)] ?init)"
    using curate_db_lookups [OF assms(1), of k] unfolding assms(2) upd .
  moreover have l0: "lookups k ?init = (None, None)"
    by (simp add: lookups_def)
  have s1: "lookups k (db_step generate_taxa_reg_exs (r1, v1) ?init) = (Some v1, None)"
    by (simp add: db_step_same_key [OF k1] l0)
  have "lookups k (db_step generate_taxa_reg_exs (r2, v2)
      (db_step generate_taxa_reg_exs (r1, v1) ?init)) = (Some v1, Some 2)"
    by (simp add: db_step_same_key [OF k2] s1)
  ultimately have "lookups k st = (Some v1, Some 2)" by simp
  then show ?thesis by (simp add: lookups_def)
qed

theorem two_records_same_key_witness:
  "curate_db float_lit
     [''k__A;p__B;'' @ [CHR 0x09] @ ''3.0'' @ [CHR 0x0A],
      ''k__[A];p__B;'' @ [CHR 0x09] @ ''5.0'' @ [CHR 0x0A]] =
   Inr \<lparr>taxa_to_rrna_copy_dict = [(''A;B'', Fin 3)], count_added = 1,
        already_present_dict = [(''A;B'', 2)]\<rparr>
   \<and> filter (\<lambda>l. line_key float_lit l = Some ''A;B'')
       [''k__A;p__B;'' @ [CHR 0x09] @ ''3.0'' @ [CHR 0x0A],
        ''k__[A];p__B;'' @ [CHR 0x09] @ ''5.0'' @ [CHR 0x0A]] =
     [''k__A;p__B;'' @ [CHR 0x09] @ ''3.0'' @ [CHR 0x0A],
      ''k__[A];p__B;'' @ [CHR 0x09] @ ''5.0'' @ [CHR 0x0A]]
   \<and> line_record float_lit (''k__A;p__B;'' @ [CHR 0x09] @ ''3.0'' @ [CHR 0x0A]) =
       Some (''k__A;p__B;'', Fin 3)
   \<and> line_record float_lit (''k__[A];p__B;'' @ [CHR 0x09] @ ''5.0'' @ [CHR 0x0A]) =
       Some (''k__[A];p__B;'', Fin 5)
   \<and> ''k__A;p__B;'' \<noteq> ''k__[A];p__B;''
   \<and> map_of (taxa_to_rrna_copy_dict
        \<lparr>taxa_to_rrna_copy_dict = [(''A;B'', Fin 3)], count_added = 1,
         already_present_dict = [(''A;B'', 2)]\<rparr>) ''A;B'' = Some (Fin 3)
   \<and> map_of (already_present_dict
        \<lparr>taxa_to_rrna_copy_dict = [(''A;B'', Fin 3)], count_added = 1,
         already_present_dict = [(''A;B'', 2)]\<rparr>) ''A;B'' = Some 2"
proof -
  have h1: "curate_db float_lit
     [''k__A;p__B;'' @ [CHR 0x09] @ ''3.0'' @ [CHR 0x0A],
      ''k__[A];p__B;'' @ [CHR 0x09] @ ''5.0'' @ [CHR 0x0A]] =
   Inr \<lparr>taxa_to_rrna_copy_dict = [(''A;B'', Fin 3)], count_added = 1,
        already_present_dict = [(''A;B'', 2)]\<rparr>"
    by code_simp
  have h2: "filter (\<lambda>l. line_key float_lit l = Some ''A;B'')
       [''k__A;p__B;'' @ [CHR 0x09] @ ''3.0'' @ [CHR 0x0A],
        ''k__[A];p__B;'' @ [CHR 0x09] @ ''5.0'' @ [CHR 0x0A]] =
     [''k__A;p__B;'' @ [CHR 0x09] @ ''3.0'' @ [CHR 0x0A],
      ''k__[A];p__B;'' @ [CHR 0x09] @ ''5.0'' @ [CHR 0x0A]]"
    by code_simp
  have h3: "line_record float_lit (''k__A;p__B;'' @ [CHR 0x09] @ ''3.0'' @ [CHR 0x0A]) =
       Some (''k__A;p__B;'', Fin 3)"
    by code_simp
  have h4: "line_record float_lit (''k__[A];p__B;'' @ [CHR 0x09] @ ''5.0'' @ [CHR 0x0A]) =
       Some (''k__[A];p__B;'', Fin 5)"
    by code_simp
  have h5: "''k__A;p__B;'' \<noteq> ''k__[A];p__B;''"
    by simp
  from two_records_same_key [OF h1 h2 h3 h4 h5] h1 h2 h3 h4 h5 show ?thesis
    by blast
qed

section \<open>Whitespace in the labels\<close>






text \<open>
  The loop of the reference curator (line 114) has no \<^verbatim>\<open>rstrip()\<close>, although the
  comment of line 161 says that the input is formatted in the same way as the
  dictionary: a trailing blank stays in the key of the reference and is removed from the
  key of the input, so the two do not meet.
\<close>

lemma reference_label_keeps_trailing_space:
  "db_key_items generate_taxa_reg_exs ''k__A ;'' = [''A '']
   \<and> input_key_items generate_taxa_reg_exs ''k__A ;'' = [''A'']"
  by code_simp

section \<open>The normaliser\<close>

lemma fadd_eq_Fin:
  "fadd a b = Fin s \<Longrightarrow> \<exists>x y. a = Fin x \<and> b = Fin y \<and> s = x + y"
  by (cases a; cases b) simp_all

lemma foldl_fadd_Fin:
  "foldl fadd acc xs = Fin s \<Longrightarrow>
   \<exists>a. acc = Fin a \<and> list_all is_fin xs \<and> s = a + sum_list (map val xs)"
proof (induction xs arbitrary: acc)
  case Nil
  then show ?case by simp
next
  case (Cons x xs)
  from Cons.prems have "foldl fadd (fadd acc x) xs = Fin s" by simp
  from Cons.IH [OF this] obtain a' where a': "fadd acc x = Fin a'"
    and fin: "list_all is_fin xs" and s: "s = a' + sum_list (map val xs)"
    by blast
  from fadd_eq_Fin [OF a'] obtain a b where "acc = Fin a" "x = Fin b" "a' = a + b"
    by blast
  with fin s show ?case by simp
qed

lemma foldl_fadd_all_fin:
  "list_all is_fin xs \<Longrightarrow> foldl fadd (Fin a) xs = Fin (a + sum_list (map val xs))"
proof (induction xs arbitrary: a)
  case Nil
  then show ?case by simp
next
  case (Cons x xs)
  then obtain b where "x = Fin b" by (cases x) simp_all
  with Cons show ?case by (simp add: add.assoc)
qed

lemma col_sum_Fin:
  assumes "col_sum c = Fin s"
  shows "list_all is_fin (filter (\<lambda>x. \<not> is_nan x) c)"
    and "s = sum_list (map val (filter (\<lambda>x. \<not> is_nan x) c))"
  using foldl_fadd_Fin [of "Fin 0" "filter (\<lambda>x. \<not> is_nan x) c" s] assms
  by (simp_all add: col_sum_def py_sum_def)




lemma make_relative_zero_sum:
  assumes "col_sum c = Fin 0" and "i < length c"
  shows "make_relative c ! i =
     (case c ! i of
        Fin x \<Rightarrow> if x = 0 then NaN else if 0 < x then PInf else NInf
      | y \<Rightarrow> NaN)"
proof -
  have fin: "list_all is_fin (filter (\<lambda>x. \<not> is_nan x) c)"
    using col_sum_Fin(1) [OF assms(1)] .
  have "c ! i \<in> set c" using assms(2) by simp
  then have "is_nan (c ! i) \<or> is_fin (c ! i)"
    using fin by (auto simp: list_all_iff)
  then show ?thesis
    using assms by (cases "c ! i") (simp_all add: make_relative_def)
qed

lemma correct_rows_cells:
  "correct_rows ref m gt names js cols = Inr cols' \<Longrightarrow> distinct js \<Longrightarrow>
   length cols' = length cols \<and>
   (\<forall>ci < length cols. length (cols' ! ci) = length (cols ! ci) \<and>
      (\<forall>i < length (cols ! ci).
         cols' ! ci ! i =
           (if i \<in> set js
            then fdiv (cols ! ci ! i) (projr (row_divisor ref m gt (names ! i)))
            else cols ! ci ! i)))"
proof (induction js arbitrary: cols)
  case Nil
  then show ?case by simp
next
  case (Cons j js)
  from Cons.prems(1) obtain d where d: "row_divisor ref m gt (names ! j) = Inr d"
    and rest: "correct_rows ref m gt names js (map (\<lambda>c. c[j := fdiv (c ! j) d]) cols) = Inr cols'"
    by (auto split: sum.splits)
  from Cons.prems(2) have dist: "distinct js" and notin: "j \<notin> set js" by simp_all
  note IH = Cons.IH [OF rest dist]
  show ?case
  proof (intro conjI allI impI)
    show "length cols' = length cols" using IH by simp
  next
    fix ci assume ci: "ci < length cols"
    with IH show "length (cols' ! ci) = length (cols ! ci)" by simp
  next
    fix ci i assume ci: "ci < length cols" and i: "i < length (cols ! ci)"
    from IH ci i have "cols' ! ci ! i =
        (if i \<in> set js
         then fdiv ((cols ! ci)[j := fdiv (cols ! ci ! j) d] ! i)
                (projr (row_divisor ref m gt (names ! i)))
         else (cols ! ci)[j := fdiv (cols ! ci ! j) d] ! i)"
      by simp
    with notin i d show "cols' ! ci ! i =
        (if i \<in> set (j # js)
         then fdiv (cols ! ci ! i) (projr (row_divisor ref m gt (names ! i)))
         else cols ! ci ! i)"
      by (cases "i = j") (auto simp: nth_list_update)
  qed
qed

lemma correct_rows_divisors:
  "correct_rows ref m gt names js cols = Inr cols' \<Longrightarrow> j \<in> set js \<Longrightarrow>
   \<exists>d. row_divisor ref m gt (names ! j) = Inr d"
  by (induction js arbitrary: cols) (auto split: sum.splits)

lemma grand_total_mean:
  "grand_total ref = Inr gt \<Longrightarrow> map snd ref = map Fin xs \<Longrightarrow>
   gt = Fin (sum_list xs / real (length xs))"
proof -
  assume gt: "grand_total ref = Inr gt" and xs: "map snd ref = map Fin xs"
  have len: "length xs = length ref"
    using arg_cong [OF xs, of length] by simp
  have "list_all is_fin (map Fin xs)" by (induction xs) simp_all
  then have "py_sum (map Fin xs) = Fin (sum_list xs)"
    using foldl_fadd_all_fin [of "map Fin xs" 0] by (simp add: py_sum_def comp_def)
  with gt xs len show ?thesis
    by (auto simp: grand_total_def split: if_splits)
qed

text \<open>
  Claim C2. After the loop of lines 58 to 63, every numeric cell of row \<open>i\<close> is the cell
  of the input divided by one divisor of the row: the value of the reference table at
  the key that \<^verbatim>\<open>input_taxa_map\<close> holds for the taxon of the row when there is such an
  entry, and otherwise the grand average, the sum of all values of the reference table
  divided by their number (for finite values, their arithmetic mean).
\<close>

theorem row_divisor_applied:
  assumes "divide_rows ref m df = Inr cols'" and "wf_df df"
    and "ci < length (df_columns df)" and "i < length (df_index df)"
  shows "\<exists>d. cols' ! ci ! i = fdiv (df_columns df ! ci ! i) d
       \<and> (case map_of m (df_index df ! i) of
            Some key \<Rightarrow> map_of ref key = Some d
          | None \<Rightarrow>
              ref \<noteq> [] \<and> d = fdiv (py_sum (map snd ref)) (Fin (real (length ref)))
              \<and> (\<forall>xs. map snd ref = map Fin xs \<longrightarrow>
                    d = Fin (sum_list xs / real (length xs))))"
proof -
  let ?n = "length (df_index df)"
  from assms(1) obtain gt where gt: "grand_total ref = Inr gt"
    and rows: "correct_rows ref m gt (df_index df) [0..<?n] (df_columns df) = Inr cols'"
    by (auto simp: divide_rows_def split: sum.splits)
  from assms(2,3) have len: "length (df_columns df ! ci) = ?n"
    by (simp add: wf_df_def list_all_length)
  from correct_rows_cells [OF rows] assms(3,4) len
  have cell: "cols' ! ci ! i =
      fdiv (df_columns df ! ci ! i) (projr (row_divisor ref m gt (df_index df ! i)))"
    by simp
  from correct_rows_divisors [OF rows, of i] assms(4)
  obtain d where d: "row_divisor ref m gt (df_index df ! i) = Inr d"
    by auto
  have gt_eq: "ref \<noteq> [] \<and> gt = fdiv (py_sum (map snd ref)) (Fin (real (length ref)))"
    using gt by (auto simp: grand_total_def split: if_splits)
  have mean: "\<forall>xs. map snd ref = map Fin xs \<longrightarrow> gt = Fin (sum_list xs / real (length xs))"
    using grand_total_mean [OF gt] by blast
  have "case map_of m (df_index df ! i) of
            Some key \<Rightarrow> map_of ref key = Some d
          | None \<Rightarrow>
              ref \<noteq> [] \<and> d = fdiv (py_sum (map snd ref)) (Fin (real (length ref)))
              \<and> (\<forall>xs. map snd ref = map Fin xs \<longrightarrow>
                    d = Fin (sum_list xs / real (length xs)))"
    using d gt_eq mean by (auto simp: row_divisor_def split: option.splits)
  with cell d show ?thesis by auto
qed

theorem row_divisor_applied_witness:
  "divide_rows [(''A'', Fin 2), (''B'', Fin 4)] [(''k__A;'', ''A'')]
     
       \<lparr>df_index = [''k__A;'', ''k__Z;''], df_columns = [[Fin 10, Fin 6], [Fin 0, Fin 0]], df_last = [''OTU1'', ''OTU2'']\<rparr> = Inr [[Fin 5, Fin 2], [Fin 0, Fin 0]]
   \<and> wf_df 
       \<lparr>df_index = [''k__A;'', ''k__Z;''], df_columns = [[Fin 10, Fin 6], [Fin 0, Fin 0]], df_last = [''OTU1'', ''OTU2'']\<rparr>
   \<and> map_of [(''k__A;'', ''A'')] ''k__A;'' = Some ''A'' \<and> map_of [(''A'', Fin 2), (''B'', Fin 4)] ''A'' = Some (Fin 2)
   \<and> map_of [(''k__A;'', ''A'')] ''k__Z;'' = None
   \<and> (\<exists>d. Fin 5 = fdiv (Fin 10) d \<and> map_of [(''A'', Fin 2), (''B'', Fin 4)] ''A'' = Some d)
   \<and> (\<exists>d. Fin 2 = fdiv (Fin 6) d \<and> d = Fin ((2 + 4) / 2))"
proof -
  have h1: "divide_rows [(''A'', Fin 2), (''B'', Fin 4)] [(''k__A;'', ''A'')]
     
       \<lparr>df_index = [''k__A;'', ''k__Z;''], df_columns = [[Fin 10, Fin 6], [Fin 0, Fin 0]], df_last = [''OTU1'', ''OTU2'']\<rparr> = Inr [[Fin 5, Fin 2], [Fin 0, Fin 0]]"
    by code_simp
  have h2: "wf_df 
       \<lparr>df_index = [''k__A;'', ''k__Z;''], df_columns = [[Fin 10, Fin 6], [Fin 0, Fin 0]], df_last = [''OTU1'', ''OTU2'']\<rparr>"
    by (simp add: wf_df_def)
  have m1: "map_of [(''k__A;'', ''A'')] ''k__A;'' = Some ''A''" and r1: "map_of [(''A'', Fin 2), (''B'', Fin 4)] ''A'' = Some (Fin 2)"
    and m2: "map_of [(''k__A;'', ''A'')] ''k__Z;'' = None"
    by simp_all
  have xs: "map snd [(''A'', Fin 2), (''B'', Fin 4)] = map Fin [2, 4]"
    by simp
  from row_divisor_applied [OF h1 h2, of 0 0]
  have c1: "\<exists>d. Fin 5 = fdiv (Fin 10) d \<and> map_of [(''A'', Fin 2), (''B'', Fin 4)] ''A'' = Some d"
    by simp
  from row_divisor_applied [OF h1 h2, of 0 1]
  obtain d where d: "Fin 2 = fdiv (Fin 6) d"
    and mean: "\<forall>xs. map snd [(''A'', Fin 2), (''B'', Fin 4)] = map Fin xs \<longrightarrow>
        d = Fin (sum_list xs / real (length xs))"
    by auto
  from mean xs have "d = Fin (sum_list [2, 4] / real (length [2 :: real, 4]))"
    by blast
  with d have c2: "\<exists>d. Fin 2 = fdiv (Fin 6) d \<and> d = Fin ((2 + 4) / 2)"
    by simp
  from h1 h2 m1 r1 m2 c1 c2 show ?thesis by blast
qed




text \<open>
  Claim C8 as stated fails: \<^verbatim>\<open>normalise\<close> has no check of the column sums. A table
  with the columns 10 and 0 in its one row goes through without an exception, and the
  cell of the second column of the output is NaN, the result of 0/0.
\<close>

theorem zero_column_counterexample:
  "rrna_norm float_lit [''k__A;'' @ [CHR 0x09] @ ''2.0'' @ [CHR 0x0A]]
     \<lparr>df_index = [''k__A;''], df_columns = [[Fin 10], [Fin 0]], df_last = [''OTU1'']\<rparr> =
   Inr \<lparr>df_index = [''k__A;''], df_columns = [[Fin 1], [NaN]], df_last = [''OTU1'']\<rparr>"
  by code_simp

text \<open>
  Claim C8, amended. For a sample column whose sum after the division of the rows is
  zero, \<^verbatim>\<open>normalise\<close> completes without an exception or a report, and every cell of
  the column in the output is the quotient by zero: NaN where the divided cell is zero or
  NaN, plus or minus infinity where it is positive or negative.
\<close>

theorem zero_column_not_detected:
  assumes "divide_rows ref m df = Inr cols" and "ci < length cols"
    and "col_sum (cols ! ci) = Fin 0" and "i < length (cols ! ci)"
  shows "\<exists>out. normalise ref m df = Inr out
       \<and> df_columns out ! ci ! i =
           (case cols ! ci ! i of
              Fin x \<Rightarrow> if x = 0 then NaN else if 0 < x then PInf else NInf
            | y \<Rightarrow> NaN)
       \<and> \<not> is_fin (df_columns out ! ci ! i)"
proof -
  have cell: "make_relative (cols ! ci) ! i =
      (case cols ! ci ! i of
         Fin x \<Rightarrow> if x = 0 then NaN else if 0 < x then PInf else NInf
       | y \<Rightarrow> NaN)"
    using assms(3,4) by (rule make_relative_zero_sum)
  then have "\<not> is_fin (make_relative (cols ! ci) ! i)"
    by (cases "cols ! ci ! i") simp_all
  with cell assms(1,2) show ?thesis
    by (simp add: normalise_def)
qed

theorem zero_column_not_detected_witness:
  "divide_rows [(''A'', Fin 2), (''B'', Fin 4)] [(''k__A;'', ''A'')]
     
       \<lparr>df_index = [''k__A;'', ''k__Z;''], df_columns = [[Fin 10, Fin 6], [Fin 0, Fin 0]], df_last = [''OTU1'', ''OTU2'']\<rparr> = Inr [[Fin 5, Fin 2], [Fin 0, Fin 0]]
   \<and> col_sum ([[Fin 5, Fin 2], [Fin 0, Fin 0]] ! 1) = Fin 0
   \<and> (\<exists>out. normalise [(''A'', Fin 2), (''B'', Fin 4)] [(''k__A;'', ''A'')] 
       \<lparr>df_index = [''k__A;'', ''k__Z;''], df_columns = [[Fin 10, Fin 6], [Fin 0, Fin 0]], df_last = [''OTU1'', ''OTU2'']\<rparr> = Inr out
        \<and> df_columns out ! 1 ! 0 = NaN)"
proof -
  have h1: "divide_rows [(''A'', Fin 2), (''B'', Fin 4)] [(''k__A;'', ''A'')]
     
       \<lparr>df_index = [''k__A;'', ''k__Z;''], df_columns = [[Fin 10, Fin 6], [Fin 0, Fin 0]], df_last = [''OTU1'', ''OTU2'']\<rparr> = Inr [[Fin 5, Fin 2], [Fin 0, Fin 0]]"
    by code_simp
  have h2: "(1::nat) < length [[Fin 5, Fin 2], [Fin 0, Fin 0]]"
    by simp
  have h3: "col_sum ([[Fin 5, Fin 2], [Fin 0, Fin 0]] ! 1) = Fin 0"
    by (simp add: col_sum_def py_sum_def)
  have h4: "(0::nat) < length ([[Fin 5, Fin 2], [Fin 0, Fin 0]] ! 1)"
    by simp
  from zero_column_not_detected [OF h1 h2 h3 h4]
  have "\<exists>out. normalise [(''A'', Fin 2), (''B'', Fin 4)] [(''k__A;'', ''A'')] 
       \<lparr>df_index = [''k__A;'', ''k__Z;''], df_columns = [[Fin 10, Fin 6], [Fin 0, Fin 0]], df_last = [''OTU1'', ''OTU2'']\<rparr> = Inr out
        \<and> df_columns out ! 1 ! 0 = NaN"
    by auto
  with h1 h3 show ?thesis by blast
qed

end
